theory Spec2Isabelle
  imports Complex_Main "HOL-Library.Word"
begin

section \<open>Session message router (useVoiceClient)\<close>

subsection \<open>Protocol frames and application events\<close>

type_synonym byte = "8 word"

text \<open>Time is a count of milliseconds; \<open>new Date()\<close> inside a handler reads the time at
  which the handler runs.\<close>

type_synonym millis = nat

text \<open>An \<open>audio_output\<close> frame. The fields \<open>question\<close> and \<open>answer\<close> are optional
  strings; \<open>None\<close> is an absent field.\<close>

record AudioOutput =
  ao_id :: string
  ao_data :: "byte list"
  ao_question :: "string option"
  ao_answer :: "string option"
  ao_end :: bool

text \<open>The inbound message union. The declared union has three variants; \<open>OtherFrame t\<close>
  is a frame that arrives at run time with a \<open>type\<close> field \<open>t\<close> outside the union, so
  \<open>t\<close> is none of \<open>handled_tags\<close> below.\<close>

datatype frame =
    VadOutput
  | AudioFrame AudioOutput
  | TextOutput string string
  | OtherFrame string

fun frame_type :: "frame \<Rightarrow> string" where
  "frame_type VadOutput = ''vad_output''"
| "frame_type (AudioFrame a) = ''audio_output''"
| "frame_type (TextOutput i ans) = ''text_output''"
| "frame_type (OtherFrame t) = t"

definition handled_tags :: "string list" where
  "handled_tags = [''vad_output'', ''audio_output'', ''text_output'']"

record UserMessage =
  um_type :: string
  um_fromText :: bool
  um_role :: string
  um_content :: string
  um_receivedAt :: millis

record AssistantMessage =
  am_type :: string
  am_id :: string
  am_fromText :: bool
  am_role :: string
  am_content :: string
  am_receivedAt :: millis
  am_end :: bool

datatype JsonMessage =
    User UserMessage
  | Assistant AssistantMessage
  | PostAssistant AssistantMessage

type_synonym SessionSettings = string

text \<open>Method calls on the \<open>ChatSocket\<close> collaborator.\<close>

datatype socket_call =
    SendSessionSettings SessionSettings
  | SendAudioInput "byte list" bool
  | SendUserInput string
  | SendAssistantInput string
  | PauseAssistant
  | ResumeAssistant
  | Close

text \<open>What the hook does that its environment can observe: a call through one of the
  callback slots (\<open>onVAD.current?.()\<close>, \<open>onMessage.current?.(m)\<close>, ...), a method call
  on the socket, or a call of the \<open>resolve\<close> or \<open>reject\<close> function of the promise that
  \<open>connect\<close> returned (such a call settles the promise only if it is still pending). The
  payload of \<open>OnAudioMessage\<close> is the frame spread together with its \<open>receivedAt\<close>
  stamp.\<close>

datatype call =
    OnVAD
  | OnMessage JsonMessage
  | OnAudioMessage frame millis
  | OnOpen
  | OnClose
  | OnError string
  | OnPlayAudio string
  | Socket socket_call
  | Resolve
  | Reject

text \<open>A value thrown by JavaScript code: the name and message of an \<open>Error\<close>.\<close>

datatype js_error = JsError string string

fun error_message :: "js_error \<Rightarrow> string" where
  "error_message (JsError n m) = m"

text \<open>A pending \<open>setTimeout\<close>: the time it becomes due and the frame its callback
  hands to \<open>onAudioMessage\<close>, with the stamp taken when the frame arrived.\<close>

type_synonym timer = "millis \<times> frame \<times> millis"

subsection \<open>The message handler\<close>

record SocketConfig =
  sendHostname :: string
  recvHostname :: string
  chatMode :: bool

text \<open>\<open>const isNever = (_n: never) => { return; }\<close>: the parameter type is checked by the
  compiler only; at run time the function returns for every argument.\<close>

definition isNever :: "frame \<Rightarrow> js_error + unit" where
  "isNever n = Inr ()"

text \<open>A JavaScript string used as a condition is true when it is present and not empty.\<close>

fun truthy :: "string option \<Rightarrow> bool" where
  "truthy None = False"
| "truthy (Some s) = (s \<noteq> [])"

definition vadMessage :: "millis \<Rightarrow> JsonMessage" where
  "vadMessage now = User \<lparr>um_type = ''user_vad_message'', um_fromText = False,
     um_role = ''user'', um_content = '''', um_receivedAt = now\<rparr>"

definition notEndMessage :: "millis \<Rightarrow> JsonMessage" where
  "notEndMessage now = Assistant \<lparr>am_type = ''assistant_notend_message'',
     am_id = ''notend begin'', am_fromText = False, am_role = ''assistant'',
     am_content = '''', am_receivedAt = now, am_end = False\<rparr>"

definition questionMessage :: "string \<Rightarrow> millis \<Rightarrow> JsonMessage" where
  "questionMessage text now = User \<lparr>um_type = ''user_message'', um_fromText = False,
     um_role = ''user'', um_content = text, um_receivedAt = now\<rparr>"

definition textMessage :: "AudioOutput \<Rightarrow> string \<Rightarrow> millis \<Rightarrow> JsonMessage" where
  "textMessage a ans now = Assistant \<lparr>am_type = ''assistant_message'', am_id = ao_id a,
     am_fromText = False, am_role = ''assistant'', am_content = ans,
     am_receivedAt = now, am_end = ao_end a\<rparr>"

definition postQuestionMessage :: "string \<Rightarrow> string \<Rightarrow> millis \<Rightarrow> JsonMessage" where
  "postQuestionMessage i ans now = PostAssistant \<lparr>am_type = ''post_assistant_message'',
     am_id = i, am_fromText = False, am_role = ''assistant'', am_content = ans,
     am_receivedAt = now, am_end = True\<rparr>"

text \<open>The \<open>vad_output\<close> branch (source lines 81-111).\<close>

definition vad_branch :: "SocketConfig \<Rightarrow> millis \<Rightarrow> call list" where
  "vad_branch config now =
     (if chatMode config then [OnVAD, OnMessage (vadMessage now)]
      else [OnMessage (notEndMessage now)])"

text \<open>The text events of the \<open>audio_output\<close> branch (source lines 114-155). The
  second object built under \<open>if (message.question)\<close> is never passed to a callback (the
  call is commented out), so it leaves no trace.\<close>

definition audio_text :: "AudioOutput \<Rightarrow> millis \<Rightarrow> call list" where
  "audio_text a now =
     (case ao_question a of
        Some q \<Rightarrow> if truthy (Some q) then [OnMessage (questionMessage q now)] else []
      | None \<Rightarrow> [])
     @ (case ao_answer a of
        Some ans \<Rightarrow> if truthy (Some ans) then [OnMessage (textMessage a ans now)] else []
      | None \<Rightarrow> [])"

definition text_branch :: "frame \<Rightarrow> millis \<Rightarrow> call list" where
  "text_branch message now =
     (case message of
        TextOutput i ans \<Rightarrow> [OnMessage (postQuestionMessage i ans now)]
      | _ \<Rightarrow> [])"

text \<open>The handler registered with \<open>client.current.on('message', ...)\<close>. It returns the
  calls it made, in order, and the timers it set; \<open>Inl\<close> would be a thrown error. The
  \<open>audio_output\<close> branch returns early; the other frames fall through to
  \<open>isNever(message)\<close>.\<close>

definition message_handler ::
    "SocketConfig \<Rightarrow> millis \<Rightarrow> frame \<Rightarrow> js_error + (call list \<times> timer list)" where
  "message_handler config now message =
     (let vad = (if frame_type message = ''vad_output'' then vad_branch config now else [])
      in if frame_type message = ''audio_output'' then
           (case message of
              AudioFrame a \<Rightarrow> Inr (vad @ audio_text a now, [(now + 200, message, now)])
            | _ \<Rightarrow> Inr (vad, [(now + 200, message, now)]))
         else
           (let txt = (if frame_type message = ''text_output''
                       then text_branch message now else [])
            in case isNever message of
                 Inl e \<Rightarrow> Inl e
               | Inr u \<Rightarrow> Inr (vad @ txt, [])))"

subsection \<open>The hook's state and its operations\<close>

datatype VoiceReadyState = IDLE | CONNECTING | OPEN | CLOSED

text \<open>The \<open>ChatSocket\<close> built by \<open>connect\<close>, with the configuration its handlers
  closed over.\<close>

record ChatSocket =
  cs_uuid :: string
  cs_config :: SocketConfig

text \<open>\<open>client\<close> is the ref \<open>client.current\<close> (\<open>None\<close> is \<open>null\<close>); \<open>readyState\<close> and
  \<open>curChatMode\<close> are the React state cells, holding what the setters stored last, which
  is what the next render reads; \<open>timers\<close> are the pending timeouts in the order they
  were set; \<open>calls\<close> is the history of observable calls, each with the time it was
  made.\<close>

record voice_client =
  client :: "ChatSocket option"
  readyState :: VoiceReadyState
  curChatMode :: bool
  timers :: "timer list"
  calls :: "(millis \<times> call) list"

definition initial_client :: voice_client where
  "initial_client = \<lparr>client = None, readyState = IDLE, curChatMode = False,
     timers = [], calls = []\<rparr>"

text \<open>What a render of the hook reads from the state cells: the \<open>readyState\<close> it
  returns, and the \<open>curChatMode\<close> that the \<open>sendUserInput\<close> it returns closes over
  (\<open>useCallback\<close> with the dependency \<open>curChatMode\<close>). A function handed out by an
  earlier render keeps the value of that render, whatever the setters store later.\<close>

record rendered =
  rendered_readyState :: VoiceReadyState
  rendered_curChatMode :: bool

definition render :: "voice_client \<Rightarrow> rendered" where
  "render v = \<lparr>rendered_readyState = readyState v, rendered_curChatMode = curChatMode v\<rparr>"

definition emit :: "millis \<Rightarrow> call list \<Rightarrow> voice_client \<Rightarrow> voice_client" where
  "emit now cs v = v\<lparr>calls := calls v @ map (Pair now) cs\<rparr>"

text \<open>\<open>client.current?.m(...)\<close>: the method is called only when the ref is not null.\<close>

definition client_call :: "millis \<Rightarrow> socket_call \<Rightarrow> voice_client \<Rightarrow> voice_client" where
  "client_call now c v =
     (case client v of None \<Rightarrow> v | Some s \<Rightarrow> emit now [Socket c] v)"

text \<open>\<open>connect\<close>. \<open>setCurChatMode\<close> and \<open>setReadyState\<close> store into the state cells;
  the message handler closes over \<open>config\<close> itself.\<close>

definition connect :: "millis \<Rightarrow> SocketConfig \<Rightarrow> string \<Rightarrow> voice_client \<Rightarrow> voice_client" where
  "connect now config uuid v =
     v\<lparr>curChatMode := chatMode config,
       client := Some \<lparr>cs_uuid = uuid, cs_config = config\<rparr>,
       readyState := CONNECTING\<rparr>"

text \<open>The socket's events. A message is handled by the handler of the current socket;
  a thrown error would leave the state as it was when the frame arrived.\<close>

definition on_open :: "millis \<Rightarrow> voice_client \<Rightarrow> voice_client" where
  "on_open now v = emit now [Resolve] ((emit now [OnOpen] v)\<lparr>readyState := OPEN\<rparr>)"

definition on_close :: "millis \<Rightarrow> voice_client \<Rightarrow> voice_client" where
  "on_close now v = (emit now [OnClose] v)\<lparr>readyState := CLOSED\<rparr>"

definition on_error :: "millis \<Rightarrow> js_error option \<Rightarrow> voice_client \<Rightarrow> voice_client" where
  "on_error now e v =
     emit now [OnError (case e of Some err \<Rightarrow> error_message err | None \<Rightarrow> ''Unknown error''),
               Reject] v"

definition deliver :: "millis \<Rightarrow> frame \<Rightarrow> voice_client \<Rightarrow> js_error + voice_client" where
  "deliver now message v =
     (case client v of
        None \<Rightarrow> Inr v
      | Some s \<Rightarrow>
          (case message_handler (cs_config s) now message of
             Inl e \<Rightarrow> Inl e
           | Inr (cs, ts) \<Rightarrow> Inr ((emit now cs v)\<lparr>timers := timers v @ ts\<rparr>)))"

text \<open>The event loop runs the oldest pending timeout at time \<open>t\<close>, and only when it is
  due: a timeout set with delay \<open>d\<close> at time \<open>now\<close> never runs before \<open>now + d\<close>.\<close>

definition fire_timer :: "millis \<Rightarrow> voice_client \<Rightarrow> voice_client option" where
  "fire_timer t v =
     (case timers v of
        [] \<Rightarrow> None
      | (due, message, receivedAt) # rest \<Rightarrow>
          if due \<le> t
          then Some ((emit t [OnAudioMessage message receivedAt] v)\<lparr>timers := rest\<rparr>)
          else None)"

definition disconnect :: "millis \<Rightarrow> voice_client \<Rightarrow> voice_client" where
  "disconnect now v = client_call now Close (v\<lparr>readyState := IDLE\<rparr>)"

definition sendSessionSettings ::
    "millis \<Rightarrow> SessionSettings \<Rightarrow> voice_client \<Rightarrow> voice_client" where
  "sendSessionSettings now sessionSettings v =
     client_call now (SendSessionSettings sessionSettings) v"

definition sendAudio :: "millis \<Rightarrow> byte list \<Rightarrow> bool \<Rightarrow> voice_client \<Rightarrow> voice_client" where
  "sendAudio now arrayBuffer playing v = client_call now (SendAudioInput arrayBuffer playing) v"

text \<open>\<open>sendUserInput\<close>. Its first argument is the \<open>curChatMode\<close> the function closed
  over, that is \<open>rendered_curChatMode\<close> of the render that created it; the state cell
  itself is not read.\<close>

definition sendUserInput :: "bool \<Rightarrow> millis \<Rightarrow> string \<Rightarrow> voice_client \<Rightarrow> voice_client" where
  "sendUserInput closedChatMode now text v =
     (let v1 = client_call now (SendUserInput text) v
      in if text = ''new topic'' then v1
         else
           (let v2 = (if closedChatMode then emit now [OnMessage (questionMessage text now)] v1
                      else v1)
            in emit now [OnMessage (notEndMessage now)] v2))"

definition sendAssistantInput :: "millis \<Rightarrow> string \<Rightarrow> voice_client \<Rightarrow> voice_client" where
  "sendAssistantInput now text v = client_call now (SendAssistantInput text) v"

definition sendPauseAssistantMessage :: "millis \<Rightarrow> voice_client \<Rightarrow> voice_client" where
  "sendPauseAssistantMessage now v = client_call now PauseAssistant v"

definition sendResumeAssistantMessage :: "millis \<Rightarrow> voice_client \<Rightarrow> voice_client" where
  "sendResumeAssistantMessage now v = client_call now ResumeAssistant v"

subsection \<open>Runs of the router\<close>

text \<open>What can happen to the hook: a call of its interface, an event of the socket, or
  the event loop running the oldest pending timeout. \<open>UserInput c text\<close> is a call of a
  \<open>sendUserInput\<close> that closed over the chat mode \<open>c\<close>. Each event comes with the time
  at which it happens.\<close>

datatype router_event =
    Connect SocketConfig string
  | Disconnect
  | SocketOpen
  | SocketClose
  | SocketError "js_error option"
  | SocketMessage frame
  | Timeout
  | SessionSettingsInput SessionSettings
  | AudioInput "byte list" bool
  | UserInput bool string
  | AssistantInput string
  | PauseInput
  | ResumeInput

fun router_step :: "millis \<Rightarrow> router_event \<Rightarrow> voice_client \<Rightarrow> voice_client option" where
  "router_step now (Connect config uuid) v = Some (connect now config uuid v)"
| "router_step now Disconnect v = Some (disconnect now v)"
| "router_step now SocketOpen v = Some (on_open now v)"
| "router_step now SocketClose v = Some (on_close now v)"
| "router_step now (SocketError e) v = Some (on_error now e v)"
| "router_step now (SocketMessage message) v =
     (case deliver now message v of Inl e \<Rightarrow> None | Inr v' \<Rightarrow> Some v')"
| "router_step now Timeout v = fire_timer now v"
| "router_step now (SessionSettingsInput sessionSettings) v =
     Some (sendSessionSettings now sessionSettings v)"
| "router_step now (AudioInput arrayBuffer playing) v = Some (sendAudio now arrayBuffer playing v)"
| "router_step now (UserInput c text) v = Some (sendUserInput c now text v)"
| "router_step now (AssistantInput text) v = Some (sendAssistantInput now text v)"
| "router_step now PauseInput v = Some (sendPauseAssistantMessage now v)"
| "router_step now ResumeInput v = Some (sendResumeAssistantMessage now v)"

fun router_run :: "(millis \<times> router_event) list \<Rightarrow> voice_client \<Rightarrow> voice_client option" where
  "router_run [] v = Some v"
| "router_run ((now, e) # es) v =
     (case router_step now e v of None \<Rightarrow> None | Some v' \<Rightarrow> router_run es v')"

text \<open>The number of timeouts that run in a sequence of events.\<close>

fun timeouts :: "(millis \<times> router_event) list \<Rightarrow> nat" where
  "timeouts [] = 0"
| "timeouts ((now, Timeout) # es) = Suc (timeouts es)"
| "timeouts ((now, e) # es) = timeouts es"

subsection \<open>Example frames and states\<close>

definition frameA :: frame where
  "frameA = AudioFrame \<lparr>ao_id = ''c0'', ao_data = [], ao_question = None,
     ao_answer = None, ao_end = False\<rparr>"

definition frameB :: AudioOutput where
  "frameB = \<lparr>ao_id = ''c1'', ao_data = [], ao_question = Some ''hi'',
     ao_answer = Some ''hello'', ao_end = False\<rparr>"

definition turn_config :: SocketConfig where
  "turn_config = \<lparr>sendHostname = ''s'', recvHostname = ''r'', chatMode = False\<rparr>"

definition chat_config :: SocketConfig where
  "chat_config = \<lparr>sendHostname = ''s'', recvHostname = ''r'', chatMode = True\<rparr>"

text \<open>The hook after \<open>connect\<close> and the frame \<open>frameA\<close>, both at time 0: the hand-off of
  that frame is pending.\<close>

definition pending_client :: voice_client where
  "pending_client = \<lparr>client = Some \<lparr>cs_uuid = ''u'', cs_config = turn_config\<rparr>,
     readyState = CONNECTING, curChatMode = False, timers = [(200, frameA, 0)], calls = []\<rparr>"

section \<open>Audio playback scheduler (useSoundPlayer)\<close>

subsection \<open>Sample decoder\<close>

text \<open>A sample is the value of a \<open>Float32Array\<close> element. Every value the decoder
  writes is an integer of at most 16 bits divided by \<open>2 ^ 15\<close>, which binary floating
  point represents exactly (lemma \<open>decoded_sample_dyadic\<close> below), so the division is
  modelled by exact division of rationals.\<close>

type_synonym sample = rat

text \<open>Element \<open>i\<close> of \<open>new Int16Array(arrayBuffer, 0, numberOfFrames)\<close>: the bytes at
  \<open>2 * i\<close> (low) and \<open>2 * i + 1\<close> (high) read as a two's complement 16-bit integer.
  A typed array reads in the byte order of the platform, which is little-endian on the
  platforms browsers run on.\<close>

definition int16_le :: "byte \<Rightarrow> byte \<Rightarrow> int" where
  "int16_le lo hi = sint (word_cat hi lo :: 16 word)"

definition int16_at :: "byte list \<Rightarrow> nat \<Rightarrow> int" where
  "int16_at arrayBuffer i = int16_le (arrayBuffer ! (2 * i)) (arrayBuffer ! (2 * i + 1))"

text \<open>\<open>audioContext.createBuffer(1, numberOfFrames, 16000)\<close>. One channel and 16000 Hz
  are accepted by every implementation; a length of zero frames is rejected with a
  \<open>NotSupportedError\<close>. The new buffer is silent.\<close>

definition createBuffer :: "nat \<Rightarrow> js_error + sample list" where
  "createBuffer numberOfFrames =
     (if numberOfFrames = 0
      then Inl (JsError ''NotSupportedError'' ''The number of frames provided (0) is not supported'')
      else Inr (replicate numberOfFrames 0))"

text \<open>\<open>nowBuffering.set(float32Array)\<close>: copies the array to the start of the channel,
  and throws when it does not fit.\<close>

definition channel_set :: "sample list \<Rightarrow> sample list \<Rightarrow> js_error + sample list" where
  "channel_set nowBuffering float32Array =
     (if length nowBuffering < length float32Array
      then Inl (JsError ''RangeError'' ''offset is out of bounds'')
      else Inr (float32Array @ drop (length float32Array) nowBuffering))"

text \<open>The body of the \<open>try\<close> block of \<open>addToQueue\<close> up to the \<open>push\<close> (source lines
  424-441). \<open>byteLength / 2\<close> is used as a length by \<open>createBuffer\<close> and by the
  \<open>Int16Array\<close> constructor, which both drop a fractional part.\<close>

definition decodeClip :: "byte list \<Rightarrow> js_error + sample list" where
  "decodeClip arrayBuffer =
     (let numberOfFrames = length arrayBuffer div 2
      in case createBuffer numberOfFrames of
           Inl e \<Rightarrow> Inl e
         | Inr audioBuffer \<Rightarrow>
             (let int16Array = map (int16_at arrayBuffer) [0..<numberOfFrames];
                  float32Array = map (\<lambda>x. of_int x / 32768) int16Array
              in channel_set audioBuffer float32Array))"

subsection \<open>Player state\<close>

text \<open>Modelled from the spec: \<open>generateEmptyFft\<close> is imported from a module that is not
  among the sources; the spec calls its result the fixed idle (all-empty) snapshot. The
  number of buckets is not stated there, and no property below depends on it.\<close>

definition generateEmptyFft :: "nat list" where
  "generateEmptyFft = replicate 24 0"

text \<open>An \<open>AudioBufferSourceNode\<close> made by \<open>playNextClip\<close>: the clip it plays, the
  analyser it was connected to, whether that connection still stands, whether it is
  producing output (started, and neither stopped nor run to the end of its buffer), and
  whether its \<open>ended\<close> event has been dispatched. The event is dispatched once, some time
  after the node stops producing output, whether the buffer ran out or \<open>stop()\<close> was
  called.\<close>

record source_node =
  sn_clip :: string
  sn_buffer :: "sample list"
  sn_analyser :: nat
  sn_connected :: bool
  sn_playing :: bool
  sn_ended :: bool

text \<open>The refs and state variables of the hook, followed by the part of the browser
  they refer to: the source nodes made so far (a node is named by its number), the
  analysers whose output is still connected to the gain node, the running
  \<open>setInterval\<close> tasks (each with the node whose clip it samples), the audio contexts
  whose \<open>close()\<close> promise has not been settled yet, those already closed, and the
  calls made through \<open>onError\<close> and \<open>onPlayAudio\<close>.\<close>

record sound_player =
  isPlaying :: bool
  fft :: "nat list"
  audioContext :: "nat option"
  analyserNode :: "nat option"
  gainNode :: "nat option"
  isInitialized :: bool
  clipQueue :: "(string \<times> sample list) list"
  isProcessing :: bool
  currentlyPlayingAudioBuffer :: "nat option"
  frequencyDataIntervalId :: "nat option"
  sources :: "nat \<Rightarrow> source_node"
  nextSource :: nat
  analyserOut :: "nat list"
  intervals :: "(nat \<times> nat) list"
  nextInterval :: nat
  nextContext :: nat
  closing :: "nat list"
  closed :: "nat list"
  player_calls :: "call list"

definition initial_player :: sound_player where
  "initial_player = \<lparr>isPlaying = False, fft = generateEmptyFft, audioContext = None,
     analyserNode = None, gainNode = None, isInitialized = False, clipQueue = [],
     isProcessing = False, currentlyPlayingAudioBuffer = None,
     frequencyDataIntervalId = None,
     sources = (\<lambda>h. \<lparr>sn_clip = [], sn_buffer = [], sn_analyser = 0, sn_connected = False,
                        sn_playing = False, sn_ended = False\<rparr>),
     nextSource = 0, analyserOut = [], intervals = [], nextInterval = 1, nextContext = 0,
     closing = [], closed = [], player_calls = []\<rparr>"

text \<open>The source nodes that are sounding: producing output into an analyser that is
  still connected to the output.\<close>

definition is_sounding :: "sound_player \<Rightarrow> nat \<Rightarrow> bool" where
  "is_sounding s h =
     (sn_playing (sources s h) \<and> sn_connected (sources s h) \<and>
      sn_analyser (sources s h) \<in> set (analyserOut s))"

definition sounding :: "sound_player \<Rightarrow> nat list" where
  "sounding s = filter (is_sounding s) [0..<nextSource s]"

text \<open>The sampling tasks that are still running, as the nodes they sample.\<close>

definition sampled :: "sound_player \<Rightarrow> nat list" where
  "sampled s = map snd (intervals s)"

subsection \<open>Operations\<close>

definition clearInterval :: "nat \<Rightarrow> sound_player \<Rightarrow> sound_player" where
  "clearInterval i s = s\<lparr>intervals := filter (\<lambda>t. fst t \<noteq> i) (intervals s)\<rparr>"

text \<open>\<open>if (frequencyDataIntervalId.current) clearInterval(...)\<close>: a number is true as a
  condition unless it is zero.\<close>

definition clear_sampling :: "sound_player \<Rightarrow> sound_player" where
  "clear_sampling s =
     (case frequencyDataIntervalId s of
        None \<Rightarrow> s
      | Some i \<Rightarrow> if i \<noteq> 0 then clearInterval i s else s)"

definition disconnect_source :: "nat \<Rightarrow> sound_player \<Rightarrow> sound_player" where
  "disconnect_source h s = s\<lparr>sources := (sources s)(h := (sources s h)\<lparr>sn_connected := False\<rparr>)\<rparr>"

definition stop_source :: "nat \<Rightarrow> sound_player \<Rightarrow> sound_player" where
  "stop_source h s = s\<lparr>sources := (sources s)(h := (sources s h)\<lparr>sn_playing := False\<rparr>)\<rparr>"

definition report :: "call \<Rightarrow> sound_player \<Rightarrow> sound_player" where
  "report c s = s\<lparr>player_calls := player_calls s @ [c]\<rparr>"

definition playNextClip :: "sound_player \<Rightarrow> sound_player" where
  "playNextClip s =
     (case analyserNode s of
        None \<Rightarrow> report (OnError ''Audio environment is not initialized'') s
      | Some analyser \<Rightarrow>
          if audioContext s = None
          then report (OnError ''Audio environment is not initialized'') s
          else if clipQueue s = [] \<or> isProcessing s then s
          else
            (case clipQueue s of
               [] \<Rightarrow> s
             | nextClip # rest \<Rightarrow>
                 (let bufferSource = nextSource s; i = nextInterval s
                  in report (OnPlayAudio (fst nextClip))
                      (s\<lparr>clipQueue := rest,
                         isProcessing := True,
                         isPlaying := True,
                         sources := (sources s)(bufferSource :=
                           \<lparr>sn_clip = fst nextClip, sn_buffer = snd nextClip,
                            sn_analyser = analyser, sn_connected = True,
                            sn_playing = True, sn_ended = False\<rparr>),
                         nextSource := bufferSource + 1,
                         currentlyPlayingAudioBuffer := Some bufferSource,
                         intervals := intervals s @ [(i, bufferSource)],
                         nextInterval := i + 1,
                         frequencyDataIntervalId := Some i\<rparr>))))"

text \<open>\<open>bufferSource.onended\<close> of the node \<open>bufferSource\<close> (source lines 384-394).\<close>

definition onended :: "nat \<Rightarrow> sound_player \<Rightarrow> sound_player" where
  "onended bufferSource s =
     (let s1 = clear_sampling s;
          s2 = s1\<lparr>fft := generateEmptyFft\<rparr>;
          s3 = disconnect_source bufferSource s2;
          s4 = s3\<lparr>isProcessing := False, isPlaying := False,
                  currentlyPlayingAudioBuffer := None\<rparr>
      in playNextClip s4)"

text \<open>\<open>updateFrequencyData\<close>, run by a sampling task every 5 ms. The reading is what
  \<open>convertLinearFrequenciesToBark\<close> returned for the analyser's data, or \<open>None\<close> when
  reading threw. The buffer of the node is always set, so its sample rate is defined.\<close>

definition updateFrequencyData :: "nat list option \<Rightarrow> sound_player \<Rightarrow> sound_player" where
  "updateFrequencyData reading s =
     (case analyserNode s of
        None \<Rightarrow> s
      | Some analyser \<Rightarrow>
          (case reading of
             Some barkFrequencies \<Rightarrow> s\<lparr>fft := barkFrequencies\<rparr>
           | None \<Rightarrow> s\<lparr>fft := generateEmptyFft\<rparr>))"

definition initPlayer :: "sound_player \<Rightarrow> sound_player" where
  "initPlayer s =
     (let c = nextContext s
      in s\<lparr>audioContext := Some c, analyserNode := Some c, gainNode := Some c,
           analyserOut := c # analyserOut s, nextContext := c + 1,
           isInitialized := True\<rparr>)"

text \<open>\<open>addToQueue\<close>. The function is \<open>async\<close> without any \<open>await\<close>, so its body runs to
  the end when it is called. The \<open>catch\<close> clause turns an error thrown by the decoding
  into a call of \<open>onError\<close>.\<close>

definition addToQueue :: "AudioOutput \<Rightarrow> sound_player \<Rightarrow> sound_player" where
  "addToQueue message s =
     (if \<not> isInitialized s \<or> audioContext s = None
      then report (OnError ''Audio player has not been initialized'') s
      else
        (case decodeClip (ao_data message) of
           Inl e \<Rightarrow> report (OnError (''Failed to add clip to queue: '' @ error_message e)) s
         | Inr audioBuffer \<Rightarrow>
             (let s1 = s\<lparr>clipQueue := clipQueue s @ [(ao_id message, audioBuffer)]\<rparr>
              in if length (clipQueue s1) = 1 then playNextClip s1 else s1)))"

text \<open>\<open>stopAll\<close>. Closing a context that is already closed rejects, and the rejection
  is swallowed; otherwise the promise is pending until the browser settles it.\<close>

definition stopAll :: "sound_player \<Rightarrow> sound_player" where
  "stopAll s =
     (let s1 = s\<lparr>isInitialized := False, isProcessing := False, isPlaying := False\<rparr>;
          s2 = clear_sampling s1;
          s3 = (case currentlyPlayingAudioBuffer s2 of
                  None \<Rightarrow> s2
                | Some h \<Rightarrow> (disconnect_source h s2)\<lparr>currentlyPlayingAudioBuffer := None\<rparr>);
          s4 = (case analyserNode s3 of
                  None \<Rightarrow> s3
                | Some analyser \<Rightarrow>
                    s3\<lparr>analyserOut := removeAll analyser (analyserOut s3),
                       analyserNode := None\<rparr>);
          s5 = (case audioContext s4 of
                  None \<Rightarrow> s4
                | Some c \<Rightarrow>
                    if c \<in> set (closed s4) then s4
                    else s4\<lparr>closing := closing s4 @ [c], closed := c # closed s4\<rparr>)
      in s5\<lparr>clipQueue := [], fft := generateEmptyFft\<rparr>)"

text \<open>The \<open>then\<close> callback of \<open>close()\<close>, run when the oldest pending close resolves.\<close>

definition close_resolved :: "sound_player \<Rightarrow> sound_player option" where
  "close_resolved s =
     (case closing s of
        [] \<Rightarrow> None
      | c # rest \<Rightarrow> Some (s\<lparr>closing := rest, audioContext := None\<rparr>))"

definition clearQueue :: "sound_player \<Rightarrow> sound_player" where
  "clearQueue s =
     (let s1 = (case currentlyPlayingAudioBuffer s of
                  None \<Rightarrow> s
                | Some h \<Rightarrow> (stop_source h s)\<lparr>currentlyPlayingAudioBuffer := None\<rparr>)
      in s1\<lparr>clipQueue := [], isProcessing := False, isPlaying := False,
            fft := generateEmptyFft\<rparr>)"

subsection \<open>Runs of the player\<close>

text \<open>What can happen to the player: a call of its interface, or an event of the
  browser. The \<open>ended\<close> event of a node is dispatched at most once, to a node that
  exists; if the node is still producing output, the event marks the natural end of its
  buffer. A sampling task fires only while its interval is running.\<close>

datatype player_event =
    InitPlayer
  | AddToQueue AudioOutput
  | ClearQueue
  | StopAll
  | Ended nat
  | IntervalTick nat "nat list option"
  | CloseResolved

definition ended_event :: "nat \<Rightarrow> sound_player \<Rightarrow> sound_player option" where
  "ended_event h s =
     (if h < nextSource s \<and> \<not> sn_ended (sources s h)
      then Some (onended h
             (s\<lparr>sources := (sources s)(h := (sources s h)\<lparr>sn_playing := False,
                                                           sn_ended := True\<rparr>)\<rparr>))
      else None)"

definition interval_tick :: "nat \<Rightarrow> nat list option \<Rightarrow> sound_player \<Rightarrow> sound_player option" where
  "interval_tick i reading s =
     (if i \<in> set (map fst (intervals s)) then Some (updateFrequencyData reading s) else None)"

fun step :: "player_event \<Rightarrow> sound_player \<Rightarrow> sound_player option" where
  "step InitPlayer s = Some (initPlayer s)"
| "step (AddToQueue message) s = Some (addToQueue message s)"
| "step ClearQueue s = Some (clearQueue s)"
| "step StopAll s = Some (stopAll s)"
| "step (Ended h) s = ended_event h s"
| "step (IntervalTick i reading) s = interval_tick i reading s"
| "step CloseResolved s = close_resolved s"

fun run :: "player_event list \<Rightarrow> sound_player \<Rightarrow> sound_player option" where
  "run [] s = Some s"
| "run (e # es) s = (case step e s of None \<Rightarrow> None | Some s' \<Rightarrow> run es s')"

subsection \<open>Example clips and states\<close>

text \<open>Four clips of one sample each.\<close>

definition clipA :: AudioOutput where
  "clipA = \<lparr>ao_id = ''A'', ao_data = [0, 0], ao_question = None, ao_answer = None,
     ao_end = False\<rparr>"

definition clipB :: AudioOutput where
  "clipB = \<lparr>ao_id = ''B'', ao_data = [1, 0], ao_question = None, ao_answer = None,
     ao_end = False\<rparr>"

definition clipC :: AudioOutput where
  "clipC = \<lparr>ao_id = ''C'', ao_data = [2, 0], ao_question = None, ao_answer = None,
     ao_end = False\<rparr>"

definition clipD :: AudioOutput where
  "clipD = \<lparr>ao_id = ''D'', ao_data = [3, 0], ao_question = None, ao_answer = None,
     ao_end = False\<rparr>"

text \<open>The player after \<open>initPlayer\<close> and three clips: the first is playing, two wait.\<close>

definition busy_player :: sound_player where
  "busy_player = addToQueue clipC (addToQueue clipB (addToQueue clipA (initPlayer initial_player)))"

text \<open>What a run shows of the player: the clips of the sounding nodes, the processing
  flag, the clip of the node the ref points to, and the clips whose sampling task is
  still running.\<close>

definition observe :: "sound_player \<Rightarrow> string list \<times> bool \<times> string option \<times> string list" where
  "observe s =
     (map (\<lambda>h. sn_clip (sources s h)) (sounding s),
      isProcessing s,
      map_option (\<lambda>h. sn_clip (sources s h)) (currentlyPlayingAudioBuffer s),
      map (\<lambda>h. sn_clip (sources s h)) (sampled s))"


subsection \<open>Orderly operation\<close>

text \<open>The state of a player in orderly operation: it is initialized, its analyser is
  connected to the output, and either no clip is active (then the processing flag is
  false, the queue is empty and no node sounds) or one is (then the flag is true and
  the active node, whose \<open>ended\<close> event is still to come, is the only one
  sounding).\<close>

definition scheduler_inv :: "sound_player \<Rightarrow> bool" where
  "scheduler_inv s =
     (isInitialized s \<and> audioContext s \<noteq> None \<and>
      (\<exists>a. analyserNode s = Some a \<and> a \<in> set (analyserOut s)) \<and>
      (currentlyPlayingAudioBuffer s = None \<longrightarrow>
         \<not> isProcessing s \<and> clipQueue s = [] \<and> (\<forall>k < nextSource s. \<not> is_sounding s k)) \<and>
      (\<forall>h. currentlyPlayingAudioBuffer s = Some h \<longrightarrow>
         isProcessing s \<and> h < nextSource s \<and> is_sounding s h \<and>
         \<not> sn_ended (sources s h) \<and>
         (\<forall>k < nextSource s. is_sounding s k \<longrightarrow> k = h)))"

text \<open>The state in which \<open>onended\<close> and \<open>addToQueue\<close> call \<open>playNextClip\<close> in
  orderly operation: nothing is active, the queue may hold clips.\<close>

definition idle_ready :: "sound_player \<Rightarrow> bool" where
  "idle_ready s =
     (isInitialized s \<and> audioContext s \<noteq> None \<and>
      (\<exists>a. analyserNode s = Some a \<and> a \<in> set (analyserOut s)) \<and>
      currentlyPlayingAudioBuffer s = None \<and> \<not> isProcessing s \<and>
      (\<forall>k < nextSource s. \<not> is_sounding s k))"

text \<open>An event is timely when it is not a teardown or a second \<open>initPlayer\<close>, and,
  for an \<open>ended\<close> event, when it belongs to the active clip or arrives while no clip
  is active. The \<open>ended\<close> event of a node stopped by \<open>clearQueue\<close> is untimely once
  another clip has started.\<close>

fun timely :: "player_event \<Rightarrow> sound_player \<Rightarrow> bool" where
  "timely InitPlayer s = False"
| "timely StopAll s = False"
| "timely CloseResolved s = False"
| "timely (Ended h) s =
     (currentlyPlayingAudioBuffer s = Some h \<or> currentlyPlayingAudioBuffer s = None)"
| "timely (AddToQueue message) s = True"
| "timely ClearQueue s = True"
| "timely (IntervalTick i reading) s = True"

text \<open>A run whose events can all happen and are all timely.\<close>

fun timely_run :: "player_event list \<Rightarrow> sound_player \<Rightarrow> bool" where
  "timely_run [] s = True"
| "timely_run (e # es) s =
     (timely e s \<and> (case step e s of None \<Rightarrow> False | Some s' \<Rightarrow> timely_run es s'))"

text \<open>The clips started so far, in order, read off the calls of \<open>onPlayAudio\<close>.\<close>

fun started :: "call list \<Rightarrow> string list" where
  "started [] = []"
| "started (OnPlayAudio i # cs) = i # started cs"
| "started (c # cs) = started cs"

text \<open>The clip an event adds to the queue: the clip of an \<open>addToQueue\<close> on an
  initialized player whose bytes decode.\<close>

fun accepted :: "player_event \<Rightarrow> sound_player \<Rightarrow> string list" where
  "accepted (AddToQueue message) s =
     (if isInitialized s \<and> audioContext s \<noteq> None \<and> \<not> isl (decodeClip (ao_data message))
      then [ao_id message] else [])"
| "accepted e s = []"

text \<open>The clips started so far followed by the clips waiting.\<close>

definition fifo_line :: "sound_player \<Rightarrow> string list" where
  "fifo_line s = started (player_calls s) @ map fst (clipQueue s)"

text \<open>The clips a run adds to the queue, in order.\<close>

fun accepted_run :: "player_event list \<Rightarrow> sound_player \<Rightarrow> string list" where
  "accepted_run [] s = []"
| "accepted_run (e # es) s =
     accepted e s @ (case step e s of None \<Rightarrow> [] | Some s' \<Rightarrow> accepted_run es s')"


section \<open>Properties of the router\<close>

text \<open>C8. A \<open>vad_output\<close> frame in chat mode makes the handler call \<open>onVAD\<close> first and
  then emit a user message with empty content, \<open>fromText\<close> false and the time of receipt;
  in turn-based mode it emits one assistant placeholder with empty content and
  \<open>end\<close> false. Nothing else is called and no timer is set.\<close>

theorem vad_output_events:
  "message_handler config now VadOutput =
     Inr (if chatMode config
          then [OnVAD,
                OnMessage (User \<lparr>um_type = ''user_vad_message'', um_fromText = False,
                  um_role = ''user'', um_content = '''', um_receivedAt = now\<rparr>)]
          else [OnMessage (Assistant \<lparr>am_type = ''assistant_notend_message'',
                  am_id = ''notend begin'', am_fromText = False, am_role = ''assistant'',
                  am_content = '''', am_receivedAt = now, am_end = False\<rparr>)],
          [])"
  by (simp add: message_handler_def vad_branch_def vadMessage_def notEndMessage_def
      isNever_def)

theorem vad_output_events_witness:
  "message_handler \<lparr>sendHostname = ''s'', recvHostname = ''r'', chatMode = True\<rparr> 7 VadOutput =
     Inr ([OnVAD,
           OnMessage (User \<lparr>um_type = ''user_vad_message'', um_fromText = False,
             um_role = ''user'', um_content = '''', um_receivedAt = 7\<rparr>)], [])"
  using vad_output_events [of "\<lparr>sendHostname = ''s'', recvHostname = ''r'', chatMode = True\<rparr>" 7]
  by simp

text \<open>C1 (as stated, refuted). The claim says that a frame whose tag is none of
  \<open>vad_output\<close>, \<open>audio_output\<close>, \<open>text_output\<close> makes the handler fail loudly. At the
  frame with tag \<open>ping\<close> the handler throws nothing: it returns, having made no call
  and set no timer.\<close>

theorem unrecognized_tag_not_fatal:
  "''ping'' \<notin> set handled_tags \<and>
   message_handler \<lparr>sendHostname = ''s'', recvHostname = ''r'', chatMode = True\<rparr> 0
     (OtherFrame ''ping'') = Inr ([], [])"
  by (simp add: message_handler_def handled_tags_def isNever_def)

text \<open>C1 (amended). For every frame whose tag is none of the three handled tags the
  handler returns normally without any call and without setting a timer, so delivering
  the frame leaves the hook's state exactly as it was: the exhaustiveness check
  \<open>isNever\<close> has no effect at run time.\<close>

theorem unrecognized_tag_ignored:
  assumes "t \<notin> set handled_tags"
  shows "message_handler config now (OtherFrame t) = Inr ([], []) \<and>
         deliver now (OtherFrame t) v = Inr v"
  using assms
  by (simp add: deliver_def emit_def message_handler_def handled_tags_def isNever_def
      split: option.split)

theorem unrecognized_tag_ignored_witness:
  "''ping'' \<notin> set handled_tags \<and>
   message_handler \<lparr>sendHostname = ''s'', recvHostname = ''r'', chatMode = False\<rparr> 3
     (OtherFrame ''ping'') = Inr ([], []) \<and>
   deliver 3 (OtherFrame ''ping'') initial_client = Inr initial_client"
proof -
  have h: "''ping'' \<notin> set handled_tags" by (simp add: handled_tags_def)
  show ?thesis
    using h unrecognized_tag_ignored [OF h,
        of "\<lparr>sendHostname = ''s'', recvHostname = ''r'', chatMode = False\<rparr>" 3 initial_client]
    by simp
qed

text \<open>C2 (as stated, refuted). The claim says that a present \<open>question\<close> field always
  yields a user message. The frame below carries the field \<open>question\<close> with the empty
  string: the handler emits the assistant message only.\<close>

theorem empty_question_not_emitted:
  "message_handler \<lparr>sendHostname = ''s'', recvHostname = ''r'', chatMode = True\<rparr> 0
     (AudioFrame \<lparr>ao_id = ''c1'', ao_data = [], ao_question = Some [],
        ao_answer = Some ''hello'', ao_end = False\<rparr>)
   = Inr ([OnMessage (Assistant \<lparr>am_type = ''assistant_message'', am_id = ''c1'',
              am_fromText = False, am_role = ''assistant'', am_content = ''hello'',
              am_receivedAt = 0, am_end = False\<rparr>)],
          [(200, AudioFrame \<lparr>ao_id = ''c1'', ao_data = [], ao_question = Some [],
              ao_answer = Some ''hello'', ao_end = False\<rparr>, 0)])"
  by (simp add: message_handler_def audio_text_def textMessage_def)

text \<open>What a step does to the pending timeouts and to the history of calls: every step
  appends to the history, a timeout removes the oldest pending timeout, and every other
  step appends to the pending ones.\<close>

lemma router_step_calls:
  assumes "router_step t e u = Some u1"
  shows "\<exists>cs. calls u1 = calls u @ cs"
proof (cases e)
  case (SocketMessage message)
  then show ?thesis using assms
    by (auto simp: deliver_def emit_def split: option.splits sum.splits prod.splits)
next
  case Timeout
  then show ?thesis using assms
    by (auto simp: fire_timer_def emit_def split: list.splits if_splits)
next
  case (UserInput c line)
  then show ?thesis using assms
    by (auto simp: sendUserInput_def client_call_def emit_def Let_def split: option.splits)
qed (insert assms, auto simp: connect_def disconnect_def on_open_def on_close_def on_error_def
      sendSessionSettings_def sendAudio_def sendAssistantInput_def
      sendPauseAssistantMessage_def sendResumeAssistantMessage_def client_call_def emit_def
      split: option.splits)

lemma router_step_timers:
  assumes "router_step t e u = Some u1" and "e \<noteq> Timeout"
  shows "\<exists>ts. timers u1 = timers u @ ts"
proof (cases e)
  case (SocketMessage message)
  then show ?thesis using assms
    by (auto simp: deliver_def emit_def split: option.splits sum.splits prod.splits)
next
  case (UserInput c line)
  then show ?thesis using assms
    by (auto simp: sendUserInput_def client_call_def emit_def Let_def split: option.splits)
qed (insert assms, auto simp: connect_def disconnect_def on_open_def on_close_def on_error_def
      sendSessionSettings_def sendAudio_def sendAssistantInput_def
      sendPauseAssistantMessage_def sendResumeAssistantMessage_def client_call_def emit_def
      split: option.splits)

lemma router_step_timeout:
  assumes "router_step t Timeout u = Some u1"
  shows "\<exists>x rest. timers u = x # rest \<and> timers u1 = rest"
  using assms by (auto simp: fire_timer_def emit_def split: list.splits if_splits)

text \<open>While fewer timeouts have run than were pending at the start, those that were
  pending are still pending, less the ones that ran, in their order and ahead of any
  newer one; and the history of the start is a prefix of the history.\<close>

lemma router_run_timers:
  assumes "router_run es u = Some w" and "timeouts es \<le> length (timers u)"
  shows "\<exists>post later. timers w = drop (timeouts es) (timers u) @ post \<and>
           calls w = calls u @ later"
  using assms
proof (induction es arbitrary: u)
  case Nil
  then show ?case by simp
next
  case (Cons te es)
  obtain t e where te: "te = (t, e)" by (cases te)
  from Cons.prems(1) te obtain u1 where u1: "router_step t e u = Some u1"
      "router_run es u1 = Some w"
    by (auto split: option.splits)
  from router_step_calls [OF u1(1)] obtain cs where cs: "calls u1 = calls u @ cs" by blast
  show ?case
  proof (cases "e = Timeout")
    case True
    with u1(1) router_step_timeout obtain x rest where
      x: "timers u = x # rest" "timers u1 = rest" by blast
    from Cons.prems(2) te True x have le: "timeouts es \<le> length (timers u1)" by simp
    from Cons.IH [OF u1(2) le] obtain post later where
      "timers w = drop (timeouts es) (timers u1) @ post" "calls w = calls u1 @ later" by blast
    then have "timers w = drop (timeouts (te # es)) (timers u) @ post"
        "calls w = calls u @ (cs @ later)"
      using te True x cs by simp_all
    then show ?thesis by blast
  next
    case False
    from router_step_timers [OF u1(1) False] obtain ts where
      ts: "timers u1 = timers u @ ts" by blast
    from False te have same: "timeouts (te # es) = timeouts es" by (cases e) simp_all
    with Cons.prems(2) ts have le: "timeouts es \<le> length (timers u1)" by simp
    from Cons.IH [OF u1(2) le] obtain post later where
      "timers w = drop (timeouts es) (timers u1) @ post" "calls w = calls u1 @ later" by blast
    then have "timers w = drop (timeouts (te # es)) (timers u) @ (ts @ post)"
        "calls w = calls u @ (cs @ later)"
      using same ts cs Cons.prems(2) by simp_all
    then show ?thesis by blast
  qed
qed

lemma pending_client_reached:
  "router_run [(0, Connect turn_config ''u''), (0, SocketMessage frameA)] initial_client
     = Some pending_client"
  by (simp add: pending_client_def initial_client_def connect_def deliver_def
      message_handler_def audio_text_def emit_def frameA_def turn_config_def)

text \<open>C2 (amended). For every \<open>audio_output\<close> frame handled at time \<open>now\<close>, whatever
  timeouts are pending: if its \<open>question\<close> is present and not empty the handler first
  emits the user message with that content; then, if its \<open>answer\<close> is present and not
  empty, it emits the assistant message with that content, the frame's \<open>end\<close> flag and
  the frame's clip identifier; and in every case it sets one timeout, due at
  \<open>now + 200\<close>, behind the pending ones, that hands the frame to \<open>onAudioMessage\<close>;
  nothing else changes. Through every run that follows, as long as no more timeouts
  have run than were pending before, this timeout is still pending behind the older
  ones that remain, and the history still begins with the history up to and including
  the text events. Once it is the oldest, it cannot run before \<open>now + 200\<close>, and when
  it runs the hand-off is appended to the history, after the text events.\<close>

theorem audio_output_text_then_audio:
  assumes "client v = Some s"
  shows "\<exists>v'. deliver now (AudioFrame a) v = Inr v' \<and>
      v' = v\<lparr>calls := calls v @ map (Pair now)
              ((case ao_question a of
                  None \<Rightarrow> []
                | Some q \<Rightarrow> if q = [] then []
                    else [OnMessage (User \<lparr>um_type = ''user_message'', um_fromText = False,
                            um_role = ''user'', um_content = q, um_receivedAt = now\<rparr>)])
               @ (case ao_answer a of
                  None \<Rightarrow> []
                | Some ans \<Rightarrow> if ans = [] then []
                    else [OnMessage (Assistant \<lparr>am_type = ''assistant_message'',
                            am_id = ao_id a, am_fromText = False, am_role = ''assistant'',
                            am_content = ans, am_receivedAt = now, am_end = ao_end a\<rparr>)])),
             timers := timers v @ [(now + 200, AudioFrame a, now)]\<rparr> \<and>
      (\<forall>es w. router_run es v' = Some w \<and> timeouts es \<le> length (timers v) \<longrightarrow>
         (\<exists>post later.
            timers w = drop (timeouts es) (timers v) @ (now + 200, AudioFrame a, now) # post \<and>
            calls w = calls v' @ later)) \<and>
      (\<forall>w post t. timers w = (now + 200, AudioFrame a, now) # post \<longrightarrow>
         router_step t Timeout w =
           (if now + 200 \<le> t
            then Some (w\<lparr>calls := calls w @ [(t, OnAudioMessage (AudioFrame a) now)],
                          timers := post\<rparr>)
            else None))"
proof -
  let ?texts = "(case ao_question a of
                  None \<Rightarrow> []
                | Some q \<Rightarrow> if q = [] then []
                    else [OnMessage (User \<lparr>um_type = ''user_message'', um_fromText = False,
                            um_role = ''user'', um_content = q, um_receivedAt = now\<rparr>)])
               @ (case ao_answer a of
                  None \<Rightarrow> []
                | Some ans \<Rightarrow> if ans = [] then []
                    else [OnMessage (Assistant \<lparr>am_type = ''assistant_message'',
                            am_id = ao_id a, am_fromText = False, am_role = ''assistant'',
                            am_content = ans, am_receivedAt = now, am_end = ao_end a\<rparr>)])"
  let ?v' = "v\<lparr>calls := calls v @ map (Pair now) ?texts,
               timers := timers v @ [(now + 200, AudioFrame a, now)]\<rparr>"
  have d: "deliver now (AudioFrame a) v = Inr ?v'"
    using assms
    by (simp add: deliver_def message_handler_def audio_text_def questionMessage_def
        textMessage_def emit_def split: option.split)
  have r: "\<exists>post later.
            timers w = drop (timeouts es) (timers v) @ (now + 200, AudioFrame a, now) # post \<and>
            calls w = calls ?v' @ later"
    if "router_run es ?v' = Some w \<and> timeouts es \<le> length (timers v)" for es w
  proof -
    from that have "timeouts es \<le> length (timers ?v')" by simp
    from router_run_timers [OF _ this] that obtain post later where
      "timers w = drop (timeouts es) (timers ?v') @ post" "calls w = calls ?v' @ later"
      by blast
    then show ?thesis using that by simp
  qed
  have f: "router_step t Timeout w =
           (if now + 200 \<le> t
            then Some (w\<lparr>calls := calls w @ [(t, OnAudioMessage (AudioFrame a) now)],
                          timers := post\<rparr>)
            else None)"
    if "timers w = (now + 200, AudioFrame a, now) # post" for w post t
    using that by (simp add: fire_timer_def emit_def)
  show ?thesis using d r f by (intro exI [of _ ?v']) blast
qed

theorem audio_output_text_then_audio_witness:
  "\<exists>v'. deliver 5 (AudioFrame frameB) pending_client = Inr v' \<and>
      timers v' = [(200, frameA, 0), (205, AudioFrame frameB, 5)] \<and>
      calls v' =
        [(5, OnMessage (User \<lparr>um_type = ''user_message'', um_fromText = False,
                um_role = ''user'', um_content = ''hi'', um_receivedAt = 5\<rparr>)),
         (5, OnMessage (Assistant \<lparr>am_type = ''assistant_message'', am_id = ''c1'',
                am_fromText = False, am_role = ''assistant'', am_content = ''hello'',
                am_receivedAt = 5, am_end = False\<rparr>))] \<and>
      (\<exists>w. router_run [(200, Timeout)] v' = Some w \<and>
         timers w = [(205, AudioFrame frameB, 5)] \<and>
         router_step 204 Timeout w = None \<and>
         router_step 205 Timeout w =
           Some (w\<lparr>calls := calls w @ [(205, OnAudioMessage (AudioFrame frameB) 5)],
                    timers := []\<rparr>))"
proof -
  have c: "client pending_client = Some \<lparr>cs_uuid = ''u'', cs_config = turn_config\<rparr>"
    by (simp add: pending_client_def)
  from audio_output_text_then_audio [OF c, of 5 frameB] obtain v' where
    d: "deliver 5 (AudioFrame frameB) pending_client = Inr v'"
    and t: "timers v' = [(200, frameA, 0), (5 + 200, AudioFrame frameB, 5)]"
    and k: "calls v' =
        [(5, OnMessage (User \<lparr>um_type = ''user_message'', um_fromText = False,
                um_role = ''user'', um_content = ''hi'', um_receivedAt = 5\<rparr>)),
         (5, OnMessage (Assistant \<lparr>am_type = ''assistant_message'', am_id = ''c1'',
                am_fromText = False, am_role = ''assistant'', am_content = ''hello'',
                am_receivedAt = 5, am_end = False\<rparr>))]"
    and f: "\<forall>w post t. timers w = (5 + 200, AudioFrame frameB, 5) # post \<longrightarrow>
         router_step t Timeout w =
           (if 5 + 200 \<le> t
            then Some (w\<lparr>calls := calls w @ [(t, OnAudioMessage (AudioFrame frameB) 5)],
                          timers := post\<rparr>)
            else None)"
    by (auto simp: pending_client_def frameB_def)
  let ?w = "v'\<lparr>calls := calls v' @ [(200, OnAudioMessage frameA 0)],
               timers := [(5 + 200, AudioFrame frameB, 5)]\<rparr>"
  have run: "router_run [(200, Timeout)] v' = Some ?w"
    using t by (simp add: fire_timer_def emit_def)
  have tw: "timers ?w = (5 + 200, AudioFrame frameB, 5) # []" by simp
  from f [rule_format, OF tw, of 204] have n: "router_step 204 Timeout ?w = None" by simp
  from f [rule_format, OF tw, of 205] have y: "router_step 205 Timeout ?w =
      Some (?w\<lparr>calls := calls ?w @ [(205, OnAudioMessage (AudioFrame frameB) 5)],
               timers := []\<rparr>)" by simp
  show ?thesis
    using d t k run n y by (intro exI [of _ v'] conjI exI [of _ ?w]) simp_all
qed

text \<open>C7 (as stated, refuted). The claim says that every call forwards the text, and
  it ties the local events to chat mode, so that outside chat mode a text other than
  the sentinel is forwarded and nothing else happens. Before any connection the text
  \<open>hi\<close> is not forwarded (the client ref is null), and the assistant placeholder is
  emitted all the same; after a connection in turn-based mode, whichever render the
  function called comes from, the text is forwarded and the placeholder is emitted as
  well.\<close>

theorem turn_based_input_emits_placeholder:
  "calls (sendUserInput (rendered_curChatMode (render initial_client)) 9 ''hi'' initial_client)
   = [(9, OnMessage (Assistant \<lparr>am_type = ''assistant_notend_message'',
            am_id = ''notend begin'', am_fromText = False, am_role = ''assistant'',
            am_content = [], am_receivedAt = 9, am_end = False\<rparr>))] \<and>
   rendered_curChatMode (render initial_client) = False \<and>
   rendered_curChatMode (render (connect 0 turn_config ''u'' initial_client)) = False \<and>
   calls (sendUserInput False 9 ''hi'' (connect 0 turn_config ''u'' initial_client))
   = [(9, Socket (SendUserInput ''hi'')),
      (9, OnMessage (Assistant \<lparr>am_type = ''assistant_notend_message'',
            am_id = ''notend begin'', am_fromText = False, am_role = ''assistant'',
            am_content = [], am_receivedAt = 9, am_end = False\<rparr>))]"
  by (simp add: sendUserInput_def client_call_def emit_def connect_def initial_client_def
      notEndMessage_def render_def turn_config_def)

text \<open>C7 (amended). For every call \<open>sendUserInput(text)\<close>: the text is forwarded to the
  socket when a socket exists (the client ref is not null); if the text is the sentinel
  \<open>new topic\<close> nothing else happens; otherwise a local user message with that content is
  emitted if and only if the chat mode the called function closed over is true, and
  after it, whatever that mode, an assistant placeholder with empty content and \<open>end\<close>
  false. Nothing but the history of calls changes. The mode a function closed over is
  the state \<open>curChatMode\<close> as read by the render that created the function: the mode of
  the last \<open>connect\<close> for a function of a render after that \<open>connect\<close>, and the mode
  from before it for a function handed out earlier.\<close>

theorem sendUserInput_events:
  "sendUserInput closedChatMode now text v =
     v\<lparr>calls := calls v @ map (Pair now)
        ((if client v = None then [] else [Socket (SendUserInput text)])
         @ (if text = ''new topic'' then []
            else (if closedChatMode
                  then [OnMessage (User \<lparr>um_type = ''user_message'', um_fromText = False,
                          um_role = ''user'', um_content = text, um_receivedAt = now\<rparr>)]
                  else [])
                 @ [OnMessage (Assistant \<lparr>am_type = ''assistant_notend_message'',
                      am_id = ''notend begin'', am_fromText = False, am_role = ''assistant'',
                      am_content = [], am_receivedAt = now, am_end = False\<rparr>)]))\<rparr> \<and>
   rendered_curChatMode (render (connect t config uuid v)) = chatMode config \<and>
   rendered_curChatMode (render v) = curChatMode v"
  by (simp add: sendUserInput_def client_call_def emit_def questionMessage_def
      notEndMessage_def Let_def render_def connect_def split: option.split)

theorem sendUserInput_events_witness:
  "calls (sendUserInput (rendered_curChatMode (render (connect 0 chat_config ''u'' initial_client)))
            4 ''new topic'' (connect 0 chat_config ''u'' initial_client))
     = [(4, Socket (SendUserInput ''new topic''))] \<and>
   calls (sendUserInput (rendered_curChatMode (render (connect 0 chat_config ''u'' initial_client)))
            4 ''hello'' (connect 0 chat_config ''u'' initial_client))
     = [(4, Socket (SendUserInput ''hello'')),
        (4, OnMessage (User \<lparr>um_type = ''user_message'', um_fromText = False,
              um_role = ''user'', um_content = ''hello'', um_receivedAt = 4\<rparr>)),
        (4, OnMessage (Assistant \<lparr>am_type = ''assistant_notend_message'',
              am_id = ''notend begin'', am_fromText = False, am_role = ''assistant'',
              am_content = [], am_receivedAt = 4, am_end = False\<rparr>))] \<and>
   calls (sendUserInput (rendered_curChatMode (render initial_client))
            4 ''hello'' (connect 0 chat_config ''u'' initial_client))
     = [(4, Socket (SendUserInput ''hello'')),
        (4, OnMessage (Assistant \<lparr>am_type = ''assistant_notend_message'',
              am_id = ''notend begin'', am_fromText = False, am_role = ''assistant'',
              am_content = [], am_receivedAt = 4, am_end = False\<rparr>))]"
  using sendUserInput_events [of True 4 "''new topic''"
      "connect 0 chat_config ''u'' initial_client" 0 chat_config "''u''"]
    sendUserInput_events [of True 4 "''hello''"
      "connect 0 chat_config ''u'' initial_client" 0 chat_config "''u''"]
    sendUserInput_events [of False 4 "''hello''"
      "connect 0 chat_config ''u'' initial_client" 0 chat_config "''u''"]
  by (simp add: connect_def initial_client_def render_def chat_config_def)

text \<open>C10. While the client ref is null (no \<open>connect\<close> has run), \<open>sendSessionSettings\<close>,
  \<open>sendAudio\<close>, \<open>sendAssistantInput\<close>, \<open>sendPauseAssistantMessage\<close> and
  \<open>sendResumeAssistantMessage\<close> return with the state unchanged, so without any call
  on a socket, and \<open>disconnect\<close> changes nothing but the ready state, which becomes
  idle. Each operation is a total function returning a state: none of them throws.\<close>

theorem null_client_operations:
  assumes "client v = None"
  shows "sendSessionSettings now sessionSettings v = v \<and>
         sendAudio now arrayBuffer playing v = v \<and>
         sendAssistantInput now text v = v \<and>
         sendPauseAssistantMessage now v = v \<and>
         sendResumeAssistantMessage now v = v \<and>
         disconnect now v = v\<lparr>readyState := IDLE\<rparr>"
  using assms
  by (simp add: sendSessionSettings_def sendAudio_def sendAssistantInput_def
      sendPauseAssistantMessage_def sendResumeAssistantMessage_def disconnect_def
      client_call_def)

theorem null_client_operations_witness:
  "client initial_client = None \<and>
   sendSessionSettings 1 ''cfg'' initial_client = initial_client \<and>
   sendAudio 1 [1, 2] True initial_client = initial_client \<and>
   sendAssistantInput 1 ''hi'' initial_client = initial_client \<and>
   sendPauseAssistantMessage 1 initial_client = initial_client \<and>
   sendResumeAssistantMessage 1 initial_client = initial_client \<and>
   calls (disconnect 1 initial_client) = [] \<and>
   readyState (disconnect 1 initial_client) = IDLE"
proof -
  have h: "client initial_client = None" by (simp add: initial_client_def)
  show ?thesis
    using h null_client_operations [OF h, of 1 "''cfg''" "[1, 2]" True "''hi''"]
    by (simp add: initial_client_def)
qed

section \<open>Properties of the sample decoder\<close>

lemma uint_cat16:
  "uint (word_cat (hi :: byte) (lo :: byte) :: 16 word) = uint hi * 256 + uint lo"
proof -
  have a: "uint hi < 256" using uint_bounded [of hi] by simp
  have b: "uint lo < 256" using uint_bounded [of lo] by simp
  have c: "0 \<le> uint hi" "0 \<le> uint lo" by simp_all
  have "uint (word_cat hi lo :: 16 word) = concat_bit 8 (uint lo) (uint hi) mod 65536"
    by (simp add: word_cat_eq' uint_word_of_int take_bit_eq_mod)
  also have "\<dots> = (uint hi * 256 + uint lo) mod 65536"
    using b c by (simp add: concat_bit_eq take_bit_eq_mod push_bit_eq_mult add.commute)
  also have "\<dots> = uint hi * 256 + uint lo" using a b c by simp
  finally show ?thesis .
qed

text \<open>The two bytes as an unsigned number, less \<open>2 ^ 16\<close> when the sign bit is set.\<close>

lemma int16_le_value:
  "int16_le lo hi =
     (if uint hi < 128 then uint hi * 256 + uint lo else uint hi * 256 + uint lo - 65536)"
proof -
  have a: "uint hi < 256" using uint_bounded [of hi] by simp
  have b: "uint lo < 256" using uint_bounded [of lo] by simp
  have c: "0 \<le> uint hi" "0 \<le> uint lo" by simp_all
  define u where "u = uint hi * 256 + uint lo"
  have u: "0 \<le> u" "u < 65536" "uint hi < 128 \<longleftrightarrow> u < 32768"
    using a b c unfolding u_def by arith+
  have "int16_le lo hi = (u + 32768) mod 65536 - 32768"
    by (simp add: int16_le_def sint_uint uint_cat16 signed_take_bit_eq_take_bit_shift
        take_bit_eq_mod u_def)
  also have "\<dots> = (if u < 32768 then u else u - 65536)"
  proof (cases "u < 32768")
    case True
    then show ?thesis using u by simp
  next
    case False
    have "u + 32768 = u - 32768 + 65536" by arith
    then have "(u + 32768) mod 65536 = (u - 32768 + 65536) mod 65536" by (rule arg_cong)
    also have "\<dots> = (u - 32768) mod 65536" by (simp only: mod_add_self2)
    also have "\<dots> = u - 32768" using False u by simp
    finally show ?thesis using False by simp
  qed
  finally show ?thesis using u by (simp add: u_def)
qed

lemma int16_le_range: "- 32768 \<le> int16_le lo hi \<and> int16_le lo hi \<le> 32767"
proof -
  have a: "uint hi < 256" "uint lo < 256"
    using uint_bounded [of hi] uint_bounded [of lo] by simp_all
  have c: "0 \<le> uint hi" "0 \<le> uint lo" by simp_all
  show ?thesis
  proof (cases "uint hi < 128")
    case True
    then have "int16_le lo hi = uint hi * 256 + uint lo" by (simp add: int16_le_value)
    then show ?thesis using a c True by arith
  next
    case False
    then have "int16_le lo hi = uint hi * 256 + uint lo - 65536" by (simp add: int16_le_value)
    then show ?thesis using a c False by arith
  qed
qed

text \<open>Each decoded sample is a dyadic rational \<open>k / 2 ^ 15\<close> with \<open>\<bar>k\<bar> \<le> 2 ^ 15\<close>: a
  significand of at most 16 bits, so storing it in a 32-bit float does not round.\<close>

lemma decoded_sample_dyadic:
  "\<exists>k :: int. \<bar>k\<bar> \<le> 2 ^ 15 \<and> (of_int (int16_le lo hi) / 32768 :: sample) = of_int k / 2 ^ 15"
  using int16_le_range [of lo hi] by (intro exI [of _ "int16_le lo hi"]) auto

text \<open>Decoding fails exactly on a buffer too short to hold one sample.\<close>

lemma decodeClip_short:
  "length arrayBuffer < 2 \<Longrightarrow>
   decodeClip arrayBuffer =
     Inl (JsError ''NotSupportedError'' ''The number of frames provided (0) is not supported'')"
  by (simp add: decodeClip_def createBuffer_def)

lemma decodeClip_long:
  "2 \<le> length arrayBuffer \<Longrightarrow>
   decodeClip arrayBuffer =
     Inr (map (\<lambda>i. of_int (int16_at arrayBuffer i) / 32768) [0..<length arrayBuffer div 2])"
  by (simp add: decodeClip_def createBuffer_def channel_set_def Let_def comp_def)

text \<open>C4. A buffer of even length \<open>n\<close> that is enqueued as a clip (a buffer with no
  bytes is rejected and never enqueued) decodes to exactly \<open>n div 2\<close> samples; sample \<open>i\<close>
  is the little-endian signed 16-bit integer at bytes \<open>2 * i\<close> and \<open>2 * i + 1\<close> divided
  by 32768, hence between \<open>-1\<close> and \<open>32767 / 32768\<close>; and that buffer is what a busy
  player appends to its queue. The bytes of \<open>-32768\<close> and \<open>32767\<close> decode to \<open>-1\<close> and
  \<open>32767 / 32768\<close>.\<close>

theorem decode_samples:
  assumes "even (length arrayBuffer)" and "arrayBuffer \<noteq> []"
  shows "\<exists>buf. decodeClip arrayBuffer = Inr buf \<and>
      length buf = length arrayBuffer div 2 \<and>
      (\<forall>i < length buf.
         buf ! i = of_int (let u = uint (arrayBuffer ! (2 * i + 1)) * 256
                                     + uint (arrayBuffer ! (2 * i))
                           in if u < 32768 then u else u - 65536) / 32768 \<and>
         - 1 \<le> buf ! i \<and> buf ! i \<le> 32767 / 32768) \<and>
      (\<forall>s message. isInitialized s \<and> audioContext s \<noteq> None \<and> isProcessing s \<and>
         ao_data message = arrayBuffer \<longrightarrow>
         clipQueue (addToQueue message s) = clipQueue s @ [(ao_id message, buf)]) \<and>
      decodeClip [0x00, 0x80, 0xFF, 0x7F] = Inr [- 1, 32767 / 32768]"
proof -
  from assms have len: "2 \<le> length arrayBuffer"
    by (cases arrayBuffer rule: list.exhaust; cases "tl arrayBuffer") auto
  let ?buf = "map (\<lambda>i. of_int (int16_at arrayBuffer i) / 32768 :: sample)
                [0..<length arrayBuffer div 2]"
  have dec: "decodeClip arrayBuffer = Inr ?buf" using len by (rule decodeClip_long)
  have val: "?buf ! i = of_int (let u = uint (arrayBuffer ! (2 * i + 1)) * 256
                                     + uint (arrayBuffer ! (2 * i))
                           in if u < 32768 then u else u - 65536) / 32768"
    if "i < length ?buf" for i
  proof -
    let ?lo = "arrayBuffer ! (2 * i)" and ?hi = "arrayBuffer ! (2 * i + 1)"
    have "uint ?hi < 256" "uint ?lo < 256" "0 \<le> uint ?hi" "0 \<le> uint ?lo"
      using uint_bounded [of ?hi] uint_bounded [of ?lo] by simp_all
    then have "(uint ?hi < 128) = (uint ?hi * 256 + uint ?lo < 32768)" by arith
    then show ?thesis using that by (simp add: int16_at_def int16_le_value Let_def)
  qed
  have rng: "- 1 \<le> ?buf ! i \<and> ?buf ! i \<le> 32767 / 32768" if "i < length ?buf" for i
  proof -
    let ?k = "int16_at arrayBuffer i"
    have "- 32768 \<le> ?k" "?k \<le> 32767"
      using int16_le_range unfolding int16_at_def by blast+
    then have "(- 32768 :: sample) \<le> of_int ?k" "(of_int ?k :: sample) \<le> 32767"
      by (metis of_int_le_iff of_int_minus of_int_numeral, metis of_int_le_iff of_int_numeral)
    then show ?thesis using that by (simp add: divide_le_eq le_divide_eq)
  qed
  have enq: "clipQueue (addToQueue message s) = clipQueue s @ [(ao_id message, ?buf)]"
    if "isInitialized s \<and> audioContext s \<noteq> None \<and> isProcessing s \<and>
        ao_data message = arrayBuffer" for s message
    using that dec
    by (auto simp: addToQueue_def playNextClip_def report_def Let_def split: option.split)
  have ex: "decodeClip [0x00, 0x80, 0xFF, 0x7F] = Inr [- 1, 32767 / 32768]"
    by (simp add: decodeClip_def createBuffer_def channel_set_def int16_at_def
        int16_le_value upt_rec)
  show ?thesis
  proof (intro exI [of _ ?buf] conjI)
    show "decodeClip arrayBuffer = Inr ?buf" by (rule dec)
    show "length ?buf = length arrayBuffer div 2" by simp
    show "\<forall>i < length ?buf.
         ?buf ! i = of_int (let u = uint (arrayBuffer ! (2 * i + 1)) * 256
                                     + uint (arrayBuffer ! (2 * i))
                           in if u < 32768 then u else u - 65536) / 32768 \<and>
         - 1 \<le> ?buf ! i \<and> ?buf ! i \<le> 32767 / 32768"
      using val rng by blast
    show "\<forall>s message. isInitialized s \<and> audioContext s \<noteq> None \<and> isProcessing s \<and>
         ao_data message = arrayBuffer \<longrightarrow>
         clipQueue (addToQueue message s) = clipQueue s @ [(ao_id message, ?buf)]"
      using enq by blast
    show "decodeClip [0x00, 0x80, 0xFF, 0x7F] = Inr [- 1, 32767 / 32768]" by (rule ex)
  qed
qed

theorem decode_samples_witness:
  "\<exists>buf. decodeClip [0x34, 0x12, 0xFE, 0xFF] = Inr buf \<and> length buf = 2 \<and>
     buf ! 0 = 4660 / 32768 \<and> buf ! 1 = - 2 / 32768"
proof -
  have h: "even (length [0x34, 0x12, 0xFE, 0xFF :: byte])" "[0x34, 0x12, 0xFE, 0xFF :: byte] \<noteq> []"
    by simp_all
  obtain buf where b: "decodeClip [0x34, 0x12, 0xFE, 0xFF] = Inr buf"
      "length buf = length [0x34, 0x12, 0xFE, 0xFF :: byte] div 2"
      "\<forall>i < length buf.
         buf ! i = of_int (let u = uint ([0x34, 0x12, 0xFE, 0xFF :: byte] ! (2 * i + 1)) * 256
                                     + uint ([0x34, 0x12, 0xFE, 0xFF :: byte] ! (2 * i))
                           in if u < 32768 then u else u - 65536) / 32768 \<and>
         - 1 \<le> buf ! i \<and> buf ! i \<le> 32767 / 32768"
    using decode_samples [OF h] by blast
  from b(2) have l: "length buf = 2" by simp
  have "buf ! 0 = 4660 / 32768" using b(3) [rule_format, of 0] l by (simp add: Let_def)
  moreover have "buf ! 1 = - 2 / 32768" using b(3) [rule_format, of 1] l by (simp add: Let_def)
  ultimately show ?thesis using b(1) l by blast
qed
section \<open>Properties of the scheduler\<close>

text \<open>C9. \<open>addToQueue\<close> is a total function of the player's state: whatever goes wrong
  inside comes out as a call of \<open>onError\<close>, never as a thrown error. Called on a player
  that is not initialized (before \<open>initPlayer\<close>, or with no audio context) it reports
  \<open>Audio player has not been initialized\<close> and changes nothing else. On an initialized
  player, when decoding throws, it reports \<open>Failed to add clip to queue:\<close> followed by
  the error's message and changes nothing else: the clip is not in the queue, and the
  queue, the processing flag, the active clip and every other part of the state are as
  before.\<close>

theorem addToQueue_failures:
  "(\<not> isInitialized s \<or> audioContext s = None \<longrightarrow>
      addToQueue message s =
        s\<lparr>player_calls := player_calls s @ [OnError ''Audio player has not been initialized'']\<rparr>) \<and>
   (isInitialized s \<and> audioContext s \<noteq> None \<and> decodeClip (ao_data message) = Inl e \<longrightarrow>
      addToQueue message s =
        s\<lparr>player_calls := player_calls s
             @ [OnError (''Failed to add clip to queue: '' @ error_message e)]\<rparr>)"
  by (auto simp: addToQueue_def report_def)

theorem addToQueue_failures_witness:
  "addToQueue \<lparr>ao_id = ''A'', ao_data = [0, 0], ao_question = None, ao_answer = None,
      ao_end = False\<rparr> initial_player =
     initial_player\<lparr>player_calls := [OnError ''Audio player has not been initialized'']\<rparr> \<and>
   addToQueue \<lparr>ao_id = ''A'', ao_data = [7], ao_question = None, ao_answer = None,
      ao_end = False\<rparr> (initPlayer initial_player) =
     (initPlayer initial_player)\<lparr>player_calls :=
        [OnError (''Failed to add clip to queue: ''
           @ ''The number of frames provided (0) is not supported'')]\<rparr>"
proof -
  have a: "\<not> isInitialized initial_player" "player_calls initial_player = []"
    by (simp_all add: initial_player_def)
  have b: "isInitialized (initPlayer initial_player)"
      "audioContext (initPlayer initial_player) \<noteq> None"
      "player_calls (initPlayer initial_player) = []"
    by (simp_all add: initPlayer_def initial_player_def Let_def)
  have c: "decodeClip (ao_data \<lparr>ao_id = ''A'', ao_data = [7], ao_question = None,
             ao_answer = None, ao_end = False\<rparr>) =
           Inl (JsError ''NotSupportedError'' ''The number of frames provided (0) is not supported'')"
    by (simp add: decodeClip_def createBuffer_def)
  show ?thesis
    using a b c
      addToQueue_failures [of initial_player
        "\<lparr>ao_id = ''A'', ao_data = [0, 0], ao_question = None, ao_answer = None,
          ao_end = False\<rparr>"
        "JsError ''NotSupportedError'' ''The number of frames provided (0) is not supported''"]
      addToQueue_failures [of "initPlayer initial_player"
        "\<lparr>ao_id = ''A'', ao_data = [7], ao_question = None, ao_answer = None,
          ao_end = False\<rparr>"
        "JsError ''NotSupportedError'' ''The number of frames provided (0) is not supported''"]
    by simp
qed

text \<open>C5. In a state with an active clip (the ref to the playing node is set) and any
  pending queue, \<open>clearQueue\<close> stops the active node at once (its \<open>ended\<close> event has
  not been awaited: it is still to come), clears the ref, empties the queue, resets the
  processing flag and the playing flag to false and the spectrum to the idle snapshot,
  and touches nothing else. If the player was initialized, it is ready for new clips:
  the next decodable clip passed to \<open>addToQueue\<close> starts playing in that very call.\<close>

theorem clearQueue_interrupts:
  assumes "currentlyPlayingAudioBuffer s = Some h"
  shows "clearQueue s =
           s\<lparr>sources := (sources s)(h := (sources s h)\<lparr>sn_playing := False\<rparr>),
             currentlyPlayingAudioBuffer := None, clipQueue := [], isProcessing := False,
             isPlaying := False, fft := generateEmptyFft\<rparr> \<and>
         \<not> sn_playing (sources (clearQueue s) h) \<and>
         sn_ended (sources (clearQueue s) h) = sn_ended (sources s h) \<and>
         h \<notin> set (sounding (clearQueue s)) \<and>
         (isInitialized s \<and> audioContext s \<noteq> None \<and> analyserNode s = Some a \<and>
          decodeClip (ao_data message) = Inr buf \<longrightarrow>
            currentlyPlayingAudioBuffer (addToQueue message (clearQueue s))
              = Some (nextSource s) \<and>
            sources (addToQueue message (clearQueue s)) (nextSource s)
              = \<lparr>sn_clip = ao_id message, sn_buffer = buf, sn_analyser = a,
                 sn_connected = True, sn_playing = True, sn_ended = False\<rparr> \<and>
            isProcessing (addToQueue message (clearQueue s)) \<and>
            isPlaying (addToQueue message (clearQueue s)) \<and>
            clipQueue (addToQueue message (clearQueue s)) = [] \<and>
            player_calls (addToQueue message (clearQueue s))
              = player_calls s @ [OnPlayAudio (ao_id message)])"
  using assms
  by (simp add: clearQueue_def stop_source_def addToQueue_def playNextClip_def report_def
      sounding_def is_sounding_def Let_def)
theorem clearQueue_interrupts_witness:
  "currentlyPlayingAudioBuffer busy_player = Some 0 \<and>
   map fst (clipQueue busy_player) = [''B'', ''C''] \<and>
   clipQueue (clearQueue busy_player) = [] \<and>
   \<not> isProcessing (clearQueue busy_player) \<and>
   \<not> sn_playing (sources (clearQueue busy_player) 0) \<and>
   currentlyPlayingAudioBuffer (addToQueue clipD (clearQueue busy_player)) = Some 1 \<and>
   sn_clip (sources (addToQueue clipD (clearQueue busy_player)) 1) = ''D'' \<and>
   sn_playing (sources (addToQueue clipD (clearQueue busy_player)) 1)"
proof -
  have h: "currentlyPlayingAudioBuffer busy_player = Some 0" by code_simp
  have q: "map fst (clipQueue busy_player) = [''B'', ''C'']" by code_simp
  have i: "isInitialized busy_player" "audioContext busy_player \<noteq> None"
      "analyserNode busy_player = Some 0" "nextSource busy_player = 1"
    by code_simp+
  have d: "decodeClip (ao_data clipD) = Inr [3 / 32768]" "ao_id clipD = ''D''"
    by (simp_all add: clipD_def decodeClip_def createBuffer_def channel_set_def int16_at_def
        int16_le_value)
  note inst = clearQueue_interrupts [OF h, of 0 clipD "[3 / 32768]"]
  have c1: "clipQueue (clearQueue busy_player) = [] \<and> \<not> isProcessing (clearQueue busy_player)"
    using inst [THEN conjunct1] by simp
  have c2: "\<not> sn_playing (sources (clearQueue busy_player) 0) \<and>
      currentlyPlayingAudioBuffer (addToQueue clipD (clearQueue busy_player)) = Some 1 \<and>
      sn_clip (sources (addToQueue clipD (clearQueue busy_player)) 1) = ''D'' \<and>
      sn_playing (sources (addToQueue clipD (clearQueue busy_player)) 1)"
    using inst [THEN conjunct2] i d by simp
  show ?thesis using h q c1 c2 by blast
qed

text \<open>C3 (the code at the failing input). \<open>clearQueue\<close> stops clip A, whose \<open>ended\<close>
  event is still to come. Clip B is enqueued and starts; clip C is enqueued behind it.
  Then the \<open>ended\<close> event of A arrives: its handler resets the processing flag and
  calls \<open>playNextClip\<close>, which starts C while B is sounding. Two clips sound at once.
  Without C in the queue, the same event leaves the processing flag false and the ref
  cleared while B is sounding.\<close>

theorem stale_ended_overlaps_clips:
  "map_option observe
     (run [InitPlayer, AddToQueue clipA, ClearQueue, AddToQueue clipB, AddToQueue clipC,
           Ended 0] initial_player)
     = Some ([''B'', ''C''], True, Some ''C'', [''A'', ''C'']) \<and>
   map_option observe
     (run [InitPlayer, AddToQueue clipA, ClearQueue, AddToQueue clipB, Ended 0]
        initial_player)
     = Some ([''B''], False, None, [''A''])"
  by code_simp

text \<open>C6 (the code at the failing input). After \<open>clearQueue\<close> nothing sounds, and the
  sampling task of the stopped clip A is still running. If clip B is enqueued before
  the \<open>ended\<close> event of A arrives, the handler of that event cancels the task of B
  (the interval id in the ref is B's by then), and the task of A is never cancelled:
  it is still running when B has ended and nothing sounds, and its next tick replaces
  the idle snapshot.\<close>

theorem clearQueue_leaks_sampling_task:
  "map_option observe (run [InitPlayer, AddToQueue clipA, ClearQueue] initial_player)
     = Some ([], False, None, [''A'']) \<and>
   map_option observe
     (run [InitPlayer, AddToQueue clipA, ClearQueue, AddToQueue clipB, Ended 0]
        initial_player)
     = Some ([''B''], False, None, [''A'']) \<and>
   map_option observe
     (run [InitPlayer, AddToQueue clipA, ClearQueue, AddToQueue clipB, Ended 0, Ended 1]
        initial_player)
     = Some ([], False, None, [''A'']) \<and>
   map_option fft
     (run [InitPlayer, AddToQueue clipA, ClearQueue, AddToQueue clipB, Ended 0, Ended 1,
           IntervalTick 1 (Some [9])] initial_player)
     = Some [9]"
  by code_simp

section \<open>What holds of the scheduler\<close>

text \<open>The paths that stop playback differ in what they do to the sampling task:
  \<open>stopAll\<close> cancels the task whose id is in the ref, \<open>clearQueue\<close> leaves every
  task running.\<close>

lemma clearQueue_keeps_sampling: "intervals (clearQueue s) = intervals s"
  by (simp add: clearQueue_def stop_source_def split: option.split)

lemma stopAll_cancels_sampling:
  assumes "frequencyDataIntervalId s = Some i" and "i \<noteq> 0"
  shows "i \<notin> fst ` set (intervals (stopAll s))"
  using assms
  by (auto simp: stopAll_def clear_sampling_def clearInterval_def disconnect_source_def Let_def
      split: option.split)

text \<open>Three clips enqueued on an idle player start in the order A, B, C, each when
  its predecessor has ended.\<close>

lemma fifo_three_clips:
  "map_option (\<lambda>s. (player_calls s, observe s))
     (run [InitPlayer, AddToQueue clipA, AddToQueue clipB, AddToQueue clipC, Ended 0, Ended 1]
        initial_player)
   = Some ([OnPlayAudio ''A'', OnPlayAudio ''B'', OnPlayAudio ''C''],
           [''C''], True, Some ''C'', [''C''])"
  by code_simp

subsection \<open>Mutual exclusion while every \<open>ended\<close> event is timely\<close>

lemma playNextClip_start:
  assumes "analyserNode s = Some a" "audioContext s \<noteq> None" "clipQueue s = c # rest"
    "\<not> isProcessing s"
  shows "playNextClip s =
     s\<lparr>clipQueue := rest, isProcessing := True, isPlaying := True,
       sources := (sources s)(nextSource s :=
          \<lparr>sn_clip = fst c, sn_buffer = snd c, sn_analyser = a, sn_connected = True,
           sn_playing = True, sn_ended = False\<rparr>),
       nextSource := nextSource s + 1,
       currentlyPlayingAudioBuffer := Some (nextSource s),
       intervals := intervals s @ [(nextInterval s, nextSource s)],
       nextInterval := nextInterval s + 1,
       frequencyDataIntervalId := Some (nextInterval s),
       player_calls := player_calls s @ [OnPlayAudio (fst c)]\<rparr>"
  using assms by (cases "audioContext s") (simp_all add: playNextClip_def report_def Let_def)

lemma playNextClip_wait:
  assumes "analyserNode s = Some a" "audioContext s \<noteq> None" "clipQueue s = [] \<or> isProcessing s"
  shows "playNextClip s = s"
  using assms by (cases "audioContext s") (auto simp: playNextClip_def)

lemma inv_exclusive:
  assumes "scheduler_inv s" "h < nextSource s" "is_sounding s h" "k < nextSource s" "is_sounding s k"
  shows "h = k"
  using assms by (auto simp: scheduler_inv_def split: option.splits)

lemma inv_processing:
  assumes "scheduler_inv s"
  shows "isProcessing s \<longleftrightarrow> (\<exists>h < nextSource s. is_sounding s h)"
  using assms by (auto simp: scheduler_inv_def split: option.splits)

lemma inv_init: "scheduler_inv (initPlayer initial_player)"
  by (simp add: scheduler_inv_def initPlayer_def initial_player_def Let_def)

lemma inv_playNextClip:
  assumes "idle_ready s"
  shows "scheduler_inv (playNextClip s)"
proof -
  from assms obtain a where a: "analyserNode s = Some a" "a \<in> set (analyserOut s)"
    and c: "audioContext s \<noteq> None" and i: "isInitialized s"
    and n: "currentlyPlayingAudioBuffer s = None" "\<not> isProcessing s"
    and q: "\<forall>k < nextSource s. \<not> is_sounding s k"
    by (auto simp: idle_ready_def)
  show ?thesis
  proof (cases "clipQueue s")
    case Nil
    then have "playNextClip s = s" using a c by (intro playNextClip_wait) auto
    then show ?thesis using a c i n q Nil by (simp add: scheduler_inv_def)
  next
    case (Cons cl rest)
    note eq = playNextClip_start [OF a(1) c Cons n(2)]
    have "\<forall>k < nextSource s. \<not> (sn_playing (sources s k) \<and> sn_connected (sources s k) \<and>
             sn_analyser (sources s k) \<in> set (analyserOut s))"
      using q by (simp add: is_sounding_def)
    then show ?thesis using a c i
      by (simp add: eq scheduler_inv_def is_sounding_def less_Suc_eq)
  qed
qed

lemma inv_player_calls [simp]:
  "scheduler_inv (s\<lparr>player_calls := x\<rparr>) = scheduler_inv s"
  by (simp add: scheduler_inv_def is_sounding_def)

lemma inv_addToQueue:
  assumes "scheduler_inv s"
  shows "scheduler_inv (addToQueue message s)"
proof -
  from assms have i: "isInitialized s" "audioContext s \<noteq> None"
    by (simp_all add: scheduler_inv_def)
  show ?thesis
  proof (cases "decodeClip (ao_data message)")
    case (Inl e)
    then have "addToQueue message s =
        s\<lparr>player_calls := player_calls s
           @ [OnError (''Failed to add clip to queue: '' @ error_message e)]\<rparr>"
      using i by (auto simp: addToQueue_def report_def)
    then show ?thesis using assms by simp
  next
    case (Inr buf)
    let ?s1 = "s\<lparr>clipQueue := clipQueue s @ [(ao_id message, buf)]\<rparr>"
    have eq: "addToQueue message s = (if clipQueue s = [] then playNextClip ?s1 else ?s1)"
      using i Inr by (auto simp: addToQueue_def Let_def)
    show ?thesis
    proof (cases "currentlyPlayingAudioBuffer s")
      case None
      with assms have "clipQueue s = []" "idle_ready ?s1"
        by (auto simp: scheduler_inv_def idle_ready_def is_sounding_def)
      then show ?thesis using eq inv_playNextClip by simp
    next
      case (Some h)
      with assms have busy: "isProcessing ?s1" "scheduler_inv ?s1"
        by (auto simp: scheduler_inv_def is_sounding_def)
      from assms obtain a where "analyserNode ?s1 = Some a" "audioContext ?s1 \<noteq> None"
        by (auto simp: scheduler_inv_def)
      then have "playNextClip ?s1 = ?s1" using busy(1) by (intro playNextClip_wait) auto
      then have "addToQueue message s = ?s1" by (simp only: eq if_cancel)
      then show ?thesis using busy(2) by (simp only:)
    qed
  qed
qed

lemma inv_clearQueue:
  assumes "scheduler_inv s"
  shows "scheduler_inv (clearQueue s)"
  using assms
  by (auto simp: scheduler_inv_def clearQueue_def stop_source_def is_sounding_def
      split: option.splits)

lemma inv_tick:
  assumes "scheduler_inv s"
  shows "scheduler_inv (updateFrequencyData reading s)"
  using assms
  by (auto simp: scheduler_inv_def updateFrequencyData_def is_sounding_def split: option.splits)

lemma inv_onended:
  assumes "scheduler_inv s"
    and "currentlyPlayingAudioBuffer s = Some h \<or> currentlyPlayingAudioBuffer s = None"
  shows "scheduler_inv (onended h
           (s\<lparr>sources := (sources s)(h := (sources s h)\<lparr>sn_playing := False,
                                                         sn_ended := True\<rparr>)\<rparr>))"
proof -
  let ?s0 = "s\<lparr>sources := (sources s)(h := (sources s h)\<lparr>sn_playing := False,
                                                         sn_ended := True\<rparr>)\<rparr>"
  let ?s4 = "(disconnect_source h ((clear_sampling ?s0)\<lparr>fft := generateEmptyFft\<rparr>))
               \<lparr>isProcessing := False, isPlaying := False,
                 currentlyPlayingAudioBuffer := None\<rparr>"
  have eq: "onended h ?s0 = playNextClip ?s4" by (simp add: onended_def Let_def)
  have "idle_ready ?s4"
    using assms
    by (auto simp: idle_ready_def scheduler_inv_def clear_sampling_def clearInterval_def
        disconnect_source_def is_sounding_def split: option.splits)
  then show ?thesis unfolding eq by (rule inv_playNextClip)
qed

lemma inv_step:
  assumes "scheduler_inv s" "timely e s" "step e s = Some s'"
  shows "scheduler_inv s'"
proof (cases e)
  case (AddToQueue message)
  then show ?thesis using assms inv_addToQueue by auto
next
  case ClearQueue
  then show ?thesis using assms inv_clearQueue by auto
next
  case (Ended h)
  then show ?thesis using assms inv_onended [of s h]
    by (auto simp: ended_event_def split: if_splits)
next
  case (IntervalTick i reading)
  then show ?thesis using assms inv_tick by (auto simp: interval_tick_def split: if_splits)
qed (use assms in auto)

lemma inv_run:
  assumes "scheduler_inv s" "timely_run es s"
  shows "\<exists>s'. run es s = Some s' \<and> scheduler_inv s'"
  using assms
proof (induction es arbitrary: s)
  case Nil
  then show ?case by simp
next
  case (Cons e es)
  from Cons.prems(2) obtain s1 where s1: "step e s = Some s1" "timely e s" "timely_run es s1"
    by (auto split: option.splits)
  from inv_step [OF Cons.prems(1) s1(2) s1(1)] have "scheduler_inv s1" .
  from Cons.IH [OF this s1(3)] show ?case using s1(1) by simp
qed

text \<open>On a run of timely events after \<open>initPlayer\<close>, at most one node sounds, and
  the processing flag is true exactly when one does. A run in which the \<open>ended\<close>
  event of a clip stopped by \<open>clearQueue\<close> arrives after the next clip has started is
  outside this lemma.\<close>

lemma orderly_exclusion:
  assumes "timely_run es (initPlayer initial_player)"
  shows "\<exists>s'. run (InitPlayer # es) initial_player = Some s' \<and>
      (\<forall>h k. h < nextSource s' \<and> is_sounding s' h \<and> k < nextSource s' \<and> is_sounding s' k
          \<longrightarrow> h = k) \<and>
      (isProcessing s' \<longleftrightarrow> (\<exists>h < nextSource s'. is_sounding s' h))"
proof -
  from inv_run [OF inv_init assms] obtain s' where
    s': "run es (initPlayer initial_player) = Some s'" "scheduler_inv s'" by blast
  have "run (InitPlayer # es) initial_player = Some s'" using s'(1) by simp
  moreover have "\<forall>h k. h < nextSource s' \<and> is_sounding s' h \<and> k < nextSource s' \<and>
      is_sounding s' k \<longrightarrow> h = k"
    using inv_exclusive [OF s'(2)] by blast
  moreover have "isProcessing s' \<longleftrightarrow> (\<exists>h < nextSource s'. is_sounding s' h)"
    using s'(2) by (rule inv_processing)
  ultimately show ?thesis by blast
qed

subsection \<open>First in, first out\<close>

text \<open>On every step but \<open>clearQueue\<close> and \<open>stopAll\<close>, timely or not, the clips started
  followed by the clips waiting grow by the clip the step enqueues, at the end: clips
  start in the order in which they were enqueued.\<close>

lemma started_append [simp]: "started (xs @ ys) = started xs @ started ys"
  by (induction xs rule: started.induct) simp_all

lemma fifo_playNextClip: "fifo_line (playNextClip s) = fifo_line s"
  by (auto simp: fifo_line_def playNextClip_def report_def Let_def split: option.splits list.splits)

lemma fifo_addToQueue:
  "fifo_line (addToQueue message s) = fifo_line s @ accepted (AddToQueue message) s"
proof (cases "isInitialized s \<and> audioContext s \<noteq> None")
  case False
  then show ?thesis by (auto simp: addToQueue_def report_def fifo_line_def)
next
  case True
  show ?thesis
  proof (cases "decodeClip (ao_data message)")
    case (Inl e)
    then show ?thesis using True by (auto simp: addToQueue_def report_def fifo_line_def)
  next
    case (Inr buf)
    let ?s1 = "s\<lparr>clipQueue := clipQueue s @ [(ao_id message, buf)]\<rparr>"
    have l: "fifo_line ?s1 = fifo_line s @ [ao_id message]" by (simp add: fifo_line_def)
    have "addToQueue message s = ?s1 \<or> addToQueue message s = playNextClip ?s1"
      using True Inr by (auto simp: addToQueue_def Let_def)
    then have "fifo_line (addToQueue message s) = fifo_line ?s1"
      using fifo_playNextClip [of ?s1] by auto
    then show ?thesis using l True Inr by simp
  qed
qed

lemma fifo_onended: "fifo_line (onended h s) = fifo_line s"
proof -
  have "fifo_line (onended h s) =
      fifo_line ((disconnect_source h ((clear_sampling s)\<lparr>fft := generateEmptyFft\<rparr>))
               \<lparr>isProcessing := False, isPlaying := False,
                 currentlyPlayingAudioBuffer := None\<rparr>)"
    by (simp add: onended_def Let_def fifo_playNextClip)
  also have "\<dots> = fifo_line s"
    by (simp add: fifo_line_def disconnect_source_def clear_sampling_def clearInterval_def
        split: option.split)
  finally show ?thesis .
qed

lemma fifo_step:
  assumes "step e s = Some s'" "e \<noteq> ClearQueue" "e \<noteq> StopAll"
  shows "fifo_line s' = fifo_line s @ accepted e s"
proof (cases e)
  case InitPlayer
  then show ?thesis using assms by (auto simp: initPlayer_def fifo_line_def Let_def)
next
  case (AddToQueue message)
  then show ?thesis using assms fifo_addToQueue by auto
next
  case (Ended h)
  let ?s0 = "s\<lparr>sources := (sources s)(h := (sources s h)\<lparr>sn_playing := False,
                                                         sn_ended := True\<rparr>)\<rparr>"
  from Ended assms have "s' = onended h ?s0"
    by (auto simp: ended_event_def split: if_splits)
  then have "fifo_line s' = fifo_line ?s0" by (simp only: fifo_onended)
  also have "\<dots> = fifo_line s" by (simp add: fifo_line_def)
  finally show ?thesis using Ended by simp
next
  case (IntervalTick i reading)
  then show ?thesis using assms
    by (auto simp: interval_tick_def updateFrequencyData_def fifo_line_def
        split: if_splits option.splits)
next
  case CloseResolved
  then show ?thesis using assms
    by (auto simp: close_resolved_def fifo_line_def split: list.splits)
qed (use assms in auto)

lemma fifo_run:
  assumes "run es s = Some s'" "ClearQueue \<notin> set es" "StopAll \<notin> set es"
  shows "fifo_line s' = fifo_line s @ accepted_run es s"
  using assms
proof (induction es arbitrary: s)
  case Nil
  then show ?case by simp
next
  case (Cons e es)
  from Cons.prems(1) obtain s1 where s1: "step e s = Some s1" "run es s1 = Some s'"
    by (auto split: option.splits)
  from Cons.prems have ne: "e \<noteq> ClearQueue" "e \<noteq> StopAll" "ClearQueue \<notin> set es"
      "StopAll \<notin> set es" by auto
  from Cons.IH [OF s1(2) ne(3) ne(4)] fifo_step [OF s1(1) ne(1) ne(2)] s1(1)
  show ?case by simp
qed

end
